theory Spec2Isabelle
  imports Main "HOL-Library.Sublist"
begin

section \<open>Data model\<close>

text \<open>
  The scanner works on tuples \<^verbatim>\<open>(resource, policy, bindings)\<close>. The resource is one of the
  typed wrappers \<^verbatim>\<open>Organization\<close>, \<^verbatim>\<open>Folder\<close>, \<^verbatim>\<open>Project\<close>, \<^verbatim>\<open>Bucket\<close>; the policy is the raw
  record of the data model; the bindings are a Python list of \<^verbatim>\<open>IamPolicyBinding\<close> objects.
\<close>

text \<open>
  Modelled from the spec: the classes of \<^verbatim>\<open>common.gcp_type\<close> (\<^verbatim>\<open>Bucket\<close>, \<^verbatim>\<open>Project\<close>,
  \<^verbatim>\<open>Folder\<close>, \<^verbatim>\<open>Organization\<close>) are imported by the scanner but not part of it. The spec gives
  a resource a kind out of four, a name and a full name; the constructors also receive the
  policy data. The test \<^verbatim>\<open>resource.type == 'bucket'\<close> is \<open>rtype r = Bucket\<close>.
\<close>

datatype resource_type = Organization | Folder | Project | Bucket

record resource =
  rtype :: resource_type
  name :: string
  full_name :: string
  rdata :: string

text \<open>The raw policy record of the data model: \<^verbatim>\<open>policy.parent.type\<close>,
  \<^verbatim>\<open>policy.parent.name\<close>, \<^verbatim>\<open>policy.parent.full_name\<close> and \<^verbatim>\<open>policy.data\<close>.\<close>

record policy =
  parent_type :: string
  parent_name :: string
  parent_full_name :: string
  data :: string

text \<open>
  Modelled from the spec: \<^verbatim>\<open>iam_policy.IamPolicyBinding\<close> and its members are imported, not
  defined, by the scanner. The spec gives a binding a role name and a set of members, a member
  a type and a name, and makes two bindings equal when role and member set are identical.
  Equality of the record below is exactly that.
\<close>

record member =
  member_type :: string
  member_name :: string

record binding =
  role_name :: string
  members :: "member set"

text \<open>
  Modelled from the spec: \<^verbatim>\<open>IamPolicyBinding.merge_members\<close>, "merge the ancestor binding's
  members into that existing binding (member-set union, not replacement)". The scanner calls
  it for its effect on the receiver and discards the return value, so the receiver object is
  updated in place; the function below gives the receiver's new value.
\<close>

definition merge_members :: "binding \<Rightarrow> binding \<Rightarrow> binding" where
  "merge_members self other = self\<lparr>members := members self \<union> members other\<rparr>"

subsection \<open>Objects and references\<close>

text \<open>
  Python lists hold references. The resolver appends an ancestor's binding object itself to a
  bucket's list and later calls \<^verbatim>\<open>merge_members\<close> on objects of that list, so one binding
  object can sit in several lists. The model keeps the binding objects in a store indexed by
  address; a bindings list is a list of addresses. The resolver creates no object: it only
  appends references it already has and updates objects in place.

  The list objects themselves are one per tuple (retrieval builds a new list for every
  policy), so a tuple's list is identified by the tuple's position in \<^verbatim>\<open>policy_data\<close>.
\<close>

type_synonym addr = nat

type_synonym policy_tuple = "resource \<times> policy \<times> addr list"

record scan_state =
  policy_data :: "policy_tuple list"
  heap :: "addr \<Rightarrow> binding"

definition resource_at :: "scan_state \<Rightarrow> nat \<Rightarrow> resource" where
  "resource_at st i = fst (policy_data st ! i)"

definition policy_at :: "scan_state \<Rightarrow> nat \<Rightarrow> policy" where
  "policy_at st i = fst (snd (policy_data st ! i))"

definition refs_at :: "scan_state \<Rightarrow> nat \<Rightarrow> addr list" where
  "refs_at st i = snd (snd (policy_data st ! i))"

text \<open>What a reader of tuple \<open>i\<close> sees: the current values of the objects in its list.\<close>

definition bindings_at :: "scan_state \<Rightarrow> nat \<Rightarrow> binding list" where
  "bindings_at st i = map (heap st) (refs_at st i)"

text \<open>
  A tuple list as retrieval builds it: every binding is a new object. \<open>alloc\<close> hands out the
  addresses in order; an address never handed out holds an empty binding that no list refers to.
\<close>

fun alloc :: "nat \<Rightarrow> (resource \<times> policy \<times> binding list) list \<Rightarrow> policy_tuple list" where
  "alloc n [] = []"
| "alloc n ((r, p, bs) # ts) = (r, p, [n..<n + length bs]) # alloc (n + length bs) ts"

definition objects :: "(resource \<times> policy \<times> binding list) list \<Rightarrow> binding list" where
  "objects ts = concat (map (\<lambda>(r, p, bs). bs) ts)"

definition load :: "(resource \<times> policy \<times> binding list) list \<Rightarrow> scan_state" where
  "load ts = \<lparr>policy_data = alloc 0 ts,
              heap = (\<lambda>a. if a < length (objects ts) then objects ts ! a
                          else \<lparr>role_name = [], members = {}\<rparr>)\<rparr>"

text \<open>The tuple list as the rule engine reads it after the resolver ran.\<close>

definition view :: "scan_state \<Rightarrow> (resource \<times> policy \<times> binding list) list" where
  "view st = map (\<lambda>(r, p, l). (r, p, map (heap st) l)) (policy_data st)"

section \<open>The ancestor resolver\<close>

text \<open>
  Python's \<^verbatim>\<open>s.find(sub)\<close>: the lowest index at which \<^verbatim>\<open>sub\<close> occurs in \<^verbatim>\<open>s\<close>, or \<open>-1\<close>.
  \<open>find_from sub s k\<close> searches the rest \<open>s\<close> of the string, whose first character has
  index \<open>k\<close>.
\<close>

fun find_from :: "string \<Rightarrow> string \<Rightarrow> nat \<Rightarrow> int" where
  "find_from sub [] k = (if sub = [] then int k else - 1)"
| "find_from sub (c # cs) k = (if prefix sub (c # cs) then int k else find_from sub cs (Suc k))"

definition py_find :: "string \<Rightarrow> string \<Rightarrow> int" where
  "py_find s sub = find_from sub s 0"

definition storage_iam_roles :: "string set" where
  "storage_iam_roles = {''roles/storage.admin'', ''roles/storage.objectViewer'',
                        ''roles/storage.objectCreator'', ''roles/storage.objectAdmin''}"

text \<open>
  \<^verbatim>\<open>bucket_data\<close>: the bucket tuples in the order of \<^verbatim>\<open>policy_data\<close>. The source keeps
  the pair (resource, list object); the model keeps the tuple's position, which names both.
\<close>

definition bucket_data :: "policy_tuple list \<Rightarrow> nat list" where
  "bucket_data pd = filter (\<lambda>i. rtype (fst (pd ! i)) = Bucket) [0..<length pd]"

text \<open>
  \<^verbatim>\<open>all_ancestor_bindings\<close> for one bucket: the list objects (by position) of the tuples
  that pass both \<^verbatim>\<open>continue\<close> tests. The second test is Python truthiness of an integer:
  the tuple is dropped when \<^verbatim>\<open>find\<close> returns anything but 0.
\<close>

definition skipped :: "resource \<Rightarrow> resource \<Rightarrow> bool" where
  "skipped bucket res \<longleftrightarrow>
     (if full_name res = full_name bucket then True
      else if py_find (full_name bucket) (full_name res) \<noteq> 0 then True
      else False)"

definition all_ancestor_bindings :: "policy_tuple list \<Rightarrow> resource \<Rightarrow> nat list" where
  "all_ancestor_bindings pd bucket =
     filter (\<lambda>j. \<not> skipped bucket (fst (pd ! j))) [0..<length pd]"

text \<open>
  The body of the innermost loop, for bucket list \<open>i\<close> and the ancestor binding object at
  address \<open>a\<close>. \<^verbatim>\<open>ancestor_binding in bucket_bindings\<close> is true when some element is the same
  object or equal to it; the same object is equal to itself, so the test is on values.
  The \<^verbatim>\<open>for ... break ... else\<close> merges into the first element with the same role name, and
  appends the ancestor's object when there is none.
\<close>

definition add_ancestor_binding :: "nat \<Rightarrow> scan_state \<Rightarrow> addr \<Rightarrow> scan_state" where
  "add_ancestor_binding i st a =
     (let ancestor_binding = heap st a; bucket_bindings = refs_at st i in
      if role_name ancestor_binding \<notin> storage_iam_roles then st
      else if list_ex (\<lambda>b. heap st b = ancestor_binding) bucket_bindings then st
      else (case find (\<lambda>b. role_name (heap st b) = role_name ancestor_binding) bucket_bindings of
              Some b \<Rightarrow> st\<lparr>heap := (heap st)(b := merge_members (heap st b) ancestor_binding)\<rparr>
            | None \<Rightarrow> st\<lparr>policy_data := (policy_data st)
                         [i := (resource_at st i, policy_at st i, bucket_bindings @ [a])]\<rparr>))"

text \<open>
  \<^verbatim>\<open>for ancestor_binding in ancestor_bindings\<close>: the ancestor's list \<open>j\<close> is another list than
  the bucket's (the full names differ), and only the bucket's list is appended to, so the
  loop runs over the elements list \<open>j\<close> has when the loop starts. The objects are read from
  the store when their turn comes.
\<close>

definition add_ancestor_bindings :: "nat \<Rightarrow> scan_state \<Rightarrow> nat \<Rightarrow> scan_state" where
  "add_ancestor_bindings i st j = foldl (add_ancestor_binding i) st (refs_at st j)"

definition process_bucket :: "scan_state \<Rightarrow> nat \<Rightarrow> scan_state" where
  "process_bucket st i =
     foldl (add_ancestor_bindings i) st
       (all_ancestor_bindings (policy_data st) (resource_at st i))"

definition add_bucket_ancestor_bindings :: "scan_state \<Rightarrow> scan_state" where
  "add_bucket_ancestor_bindings st = foldl process_bucket st (bucket_data (policy_data st))"

subsection \<open>Properties of a scan state used below\<close>

text \<open>No bindings list holds two entries with the same role name.\<close>

definition roles_unique :: "scan_state \<Rightarrow> bool" where
  "roles_unique st \<longleftrightarrow>
     (\<forall>t \<in> set (policy_data st). distinct (map (\<lambda>b. role_name (heap st b)) (snd (snd t))))"

text \<open>
  \<open>grows st st'\<close>: the tuples are the same resources and policies, every list of \<open>st\<close> is
  an initial segment of the same list in \<open>st'\<close>, and every object has kept its role name
  and all its members.
\<close>

definition grows :: "scan_state \<Rightarrow> scan_state \<Rightarrow> bool" where
  "grows st st' \<longleftrightarrow>
     length (policy_data st') = length (policy_data st) \<and>
     (\<forall>k. resource_at st' k = resource_at st k \<and> policy_at st' k = policy_at st k \<and>
          prefix (refs_at st k) (refs_at st' k)) \<and>
     (\<forall>a. role_name (heap st' a) = role_name (heap st a) \<and>
          members (heap st a) \<subseteq> members (heap st' a))"

text \<open>
  \<open>holds_binding st i r ms\<close>: the list of tuple \<open>i\<close> has an entry with role name \<open>r\<close>
  whose members include \<open>ms\<close>.
\<close>

definition holds_binding :: "scan_state \<Rightarrow> nat \<Rightarrow> string \<Rightarrow> member set \<Rightarrow> bool" where
  "holds_binding st i r ms \<longleftrightarrow>
     (\<exists>b \<in> set (refs_at st i). role_name (heap st b) = r \<and> ms \<subseteq> members (heap st b))"

section \<open>The violation flattener\<close>

text \<open>
  Modelled from the spec: the rule engine's violation tuple is not defined by the scanner;
  the fields are the ones \<^verbatim>\<open>_flatten_violations\<close> reads. \<^verbatim>\<open>violation.full_name\<close> is
  \<open>v_full_name\<close> and \<^verbatim>\<open>violation.members\<close> is \<open>v_members\<close>, a sequence.
\<close>

record violation =
  resource_id :: string
  resource_type :: string
  v_full_name :: string
  rule_index :: int
  rule_name :: string
  violation_type :: string
  v_members :: "member list"
  role :: string
  inventory_data :: string

text \<open>The two dictionaries the generator builds, with their keys as fields.\<close>

record violation_data =
  vd_full_name :: string
  vd_role :: string
  vd_member :: string

record flat_violation =
  f_resource_id :: string
  f_resource_type :: string
  f_full_name :: string
  f_rule_index :: int
  f_rule_name :: string
  f_violation_type :: string
  f_violation_data :: violation_data
  f_inventory_data :: string

text \<open>\<^verbatim>\<open>'%s:%s' % (member.type, member.name)\<close>\<close>

definition member_str :: "member \<Rightarrow> string" where
  "member_str m = member_type m @ '':'' @ member_name m"

definition flat_record :: "violation \<Rightarrow> member \<Rightarrow> flat_violation" where
  "flat_record v m =
     \<lparr>f_resource_id = resource_id v,
      f_resource_type = resource_type v,
      f_full_name = v_full_name v,
      f_rule_index = rule_index v,
      f_rule_name = rule_name v,
      f_violation_type = violation_type v,
      f_violation_data =
        \<lparr>vd_full_name = v_full_name v, vd_role = role v, vd_member = member_str m\<rparr>,
      f_inventory_data = inventory_data v\<rparr>"

text \<open>The inner and the outer loop of the generator; the result is what it yields, in order.\<close>

fun flatten_members :: "violation \<Rightarrow> member list \<Rightarrow> flat_violation list" where
  "flatten_members v [] = []"
| "flatten_members v (m # ms) = flat_record v m # flatten_members v ms"

fun flatten_violations :: "violation list \<Rightarrow> flat_violation list" where
  "flatten_violations [] = []"
| "flatten_violations (v # vs) = flatten_members v (v_members v) @ flatten_violations vs"

section \<open>Retrieval and the run\<close>

datatype exit = SystemExit int

text \<open>The resource counts, a dictionary with the four resource types as keys.\<close>

record resource_counts =
  org_iam_policy_counter :: nat
  folder_iam_policy_counter :: nat
  project_iam_policy_counter :: nat
  bucket_iam_policy_counter :: nat

definition supported_iam_types :: "string list" where
  "supported_iam_types = [''organization'', ''folder'', ''project'', ''bucket'']"

text \<open>The wrappers are built from the parent's name and full name and the policy data.\<close>

definition mk_resource :: "resource_type \<Rightarrow> policy \<Rightarrow> resource" where
  "mk_resource t policy =
     \<lparr>rtype = t, name = parent_name policy, full_name = parent_full_name policy,
      rdata = data policy\<rparr>"

text \<open>
  One round of the loop of \<^verbatim>\<open>_retrieve\<close>. \<open>parse_bindings\<close> stands for the JSON decoding of
  \<^verbatim>\<open>policy.data\<close> and \<^verbatim>\<open>IamPolicyBinding.create_from\<close> with the failed entries filtered out;
  every call gives new binding objects in a new list. The bucket test is an \<^verbatim>\<open>if\<close> of its
  own, followed by the \<^verbatim>\<open>if/elif/elif\<close> chain of the other three types.
\<close>

definition retrieve_policy ::
  "(string \<Rightarrow> binding list) \<Rightarrow>
   (resource \<times> policy \<times> binding list) list \<times> resource_counts \<Rightarrow> policy \<Rightarrow>
   (resource \<times> policy \<times> binding list) list \<times> resource_counts" where
  "retrieve_policy parse_bindings acc policy =
     (if parent_type policy \<notin> set supported_iam_types then acc
      else
        let policy_bindings = parse_bindings (data policy);
            (pd, c) = acc;
            (pd, c) =
              (if parent_type policy = ''bucket''
               then (pd @ [(mk_resource Bucket policy, policy, policy_bindings)],
                     c\<lparr>bucket_iam_policy_counter := bucket_iam_policy_counter c + 1\<rparr>)
               else (pd, c))
        in if parent_type policy = ''project''
           then (pd @ [(mk_resource Project policy, policy, policy_bindings)],
                 c\<lparr>project_iam_policy_counter := project_iam_policy_counter c + 1\<rparr>)
           else if parent_type policy = ''folder''
           then (pd @ [(mk_resource Folder policy, policy, policy_bindings)],
                 c\<lparr>folder_iam_policy_counter := folder_iam_policy_counter c + 1\<rparr>)
           else if parent_type policy = ''organization''
           then (pd @ [(mk_resource Organization policy, policy, policy_bindings)],
                 c\<lparr>org_iam_policy_counter := org_iam_policy_counter c + 1\<rparr>)
           else (pd, c))"

definition retrieve_loop ::
  "(string \<Rightarrow> binding list) \<Rightarrow> policy list \<Rightarrow>
   (resource \<times> policy \<times> binding list) list \<times> resource_counts" where
  "retrieve_loop parse_bindings policies =
     foldl (retrieve_policy parse_bindings)
       ([], \<lparr>org_iam_policy_counter = 0, folder_iam_policy_counter = 0,
              project_iam_policy_counter = 0, bucket_iam_policy_counter = 0\<rparr>)
       policies"

text \<open>\<^verbatim>\<open>_retrieve\<close>: \<^verbatim>\<open>sys.exit(1)\<close> when the loop has collected nothing.\<close>

definition retrieve ::
  "(string \<Rightarrow> binding list) \<Rightarrow> policy list \<Rightarrow>
   exit + (resource \<times> policy \<times> binding list) list \<times> resource_counts" where
  "retrieve parse_bindings policies =
     (let (pd, counts) = retrieve_loop parse_bindings policies
      in if pd = [] then Inl (SystemExit 1)
         else Inr (pd, counts))"

text \<open>
  \<^verbatim>\<open>_find_violations\<close>: the rule engine, a parameter here, is called once per tuple with the
  bindings as they are then, and its results are concatenated in order.
\<close>

definition find_violations ::
  "(resource \<Rightarrow> policy \<Rightarrow> binding list \<Rightarrow> violation list) \<Rightarrow> scan_state \<Rightarrow> violation list" where
  "find_violations find_policy_violations st =
     foldl (\<lambda>all_violations (res, pol, policy_bindings).
              all_violations @ find_policy_violations res pol (map (heap st) policy_bindings))
       [] (policy_data st)"

text \<open>
  \<^verbatim>\<open>_output_results\<close> hands the flattened violations and the counts to the sinks (database,
  CSV file, notifier); the model returns what it hands over.
\<close>

definition output_results ::
  "violation list \<Rightarrow> resource_counts \<Rightarrow> flat_violation list \<times> resource_counts" where
  "output_results all_violations counts =
     (flatten_violations all_violations, counts)"

definition run ::
  "(resource \<Rightarrow> policy \<Rightarrow> binding list \<Rightarrow> violation list) \<Rightarrow> (string \<Rightarrow> binding list) \<Rightarrow>
   policy list \<Rightarrow> exit + flat_violation list \<times> resource_counts" where
  "run find_policy_violations parse_bindings policies =
     (case retrieve parse_bindings policies of
        Inl e \<Rightarrow> Inl e
      | Inr (pd, counts) \<Rightarrow>
          let st = add_bucket_ancestor_bindings (load pd);
              all_violations = find_violations find_policy_violations st
          in Inr (output_results all_violations counts))"

section \<open>Example inputs\<close>

definition storage_admin :: string where
  "storage_admin = ''roles/storage.admin''"

definition user :: "string \<Rightarrow> member" where
  "user n = \<lparr>member_type = ''user'', member_name = n\<rparr>"

definition admins :: "string list \<Rightarrow> binding" where
  "admins ns = \<lparr>role_name = storage_admin, members = set (map user ns)\<rparr>"

definition raw_policy :: "string \<Rightarrow> string \<Rightarrow> string \<Rightarrow> policy" where
  "raw_policy t n f = \<lparr>parent_type = t, parent_name = n, parent_full_name = f, data = []\<rparr>"

definition org_policy :: policy where
  "org_policy = raw_policy ''organization'' ''1'' ''organization/1/''"

definition p1_policy :: policy where
  "p1_policy = raw_policy ''project'' ''p1'' ''organization/1/project/p1/''"

definition p2_policy :: policy where
  "p2_policy = raw_policy ''project'' ''p2'' ''organization/1/project/p2/''"

definition b1_policy :: policy where
  "b1_policy = raw_policy ''bucket'' ''b1'' ''organization/1/project/p1/bucket/b1/''"

definition b2_policy :: policy where
  "b2_policy = raw_policy ''bucket'' ''b2'' ''organization/1/project/p2/bucket/b2/''"

definition tuple_of :: "resource_type \<Rightarrow> policy \<Rightarrow> binding list \<Rightarrow> resource \<times> policy \<times> binding list" where
  "tuple_of t p bs = (mk_resource t p, p, bs)"

text \<open>An organization granting bob, a project granting alice, and an empty bucket in the project.\<close>

definition chain_input :: "(resource \<times> policy \<times> binding list) list" where
  "chain_input =
     [tuple_of Organization org_policy [admins [''bob'']],
      tuple_of Project p1_policy [admins [''alice'']],
      tuple_of Bucket b1_policy []]"

text \<open>The same with a second project and a bucket in it that grants carol; the two lists
  differ in the order of the two buckets only.\<close>

definition buckets_input :: "(resource \<times> policy \<times> binding list) list" where
  "buckets_input =
     [tuple_of Organization org_policy [admins [''bob'']],
      tuple_of Project p1_policy [admins [''alice'']],
      tuple_of Project p2_policy [],
      tuple_of Bucket b1_policy [],
      tuple_of Bucket b2_policy [admins [''carol'']]]"

definition buckets_swapped :: "(resource \<times> policy \<times> binding list) list" where
  "buckets_swapped =
     [tuple_of Organization org_policy [admins [''bob'']],
      tuple_of Project p1_policy [admins [''alice'']],
      tuple_of Project p2_policy [],
      tuple_of Bucket b2_policy [admins [''carol'']],
      tuple_of Bucket b1_policy []]"

text \<open>A project whose full name is empty, and a bucket.\<close>

definition nameless_input :: "(resource \<times> policy \<times> binding list) list" where
  "nameless_input =
     [tuple_of Project (raw_policy ''project'' ''p'' []) [admins [''alice'']],
      tuple_of Bucket (raw_policy ''bucket'' ''b'' ''bucket/b/'') []]"

text \<open>A bucket that grants alice below a project that grants bob.\<close>

definition union_input :: "(resource \<times> policy \<times> binding list) list" where
  "union_input =
     [tuple_of Project p1_policy [admins [''bob'']],
      tuple_of Bucket b1_policy [admins [''alice'']]]"

text \<open>
  A bucket whose full name is empty and that grants alice, a project granting bob, and an
  empty bucket in the project.
\<close>

definition nameless_shared_input :: "(resource \<times> policy \<times> binding list) list" where
  "nameless_shared_input =
     [tuple_of Bucket (raw_policy ''bucket'' ''n'' []) [admins [''alice'']],
      tuple_of Project (raw_policy ''project'' ''p'' ''p/'') [admins [''bob'']],
      tuple_of Bucket (raw_policy ''bucket'' ''b'' ''p/b/'') []]"

text \<open>A violation on bucket b1 naming the given members.\<close>

definition example_violation :: "member list \<Rightarrow> violation" where
  "example_violation ms =
     \<lparr>resource_id = ''b1'', resource_type = ''bucket'',
      v_full_name = ''organization/1/project/p1/bucket/b1/'', rule_index = 0,
      rule_name = ''no admins'', violation_type = ''ADDED'', v_members = ms,
      role = storage_admin, inventory_data = []\<rparr>"

section \<open>Verification\<close>

subsection \<open>String search\<close>

text \<open>
  \<^verbatim>\<open>find\<close> returns 0 exactly when the searched string starts with the pattern, so a tuple
  passes the second test of the ancestor loop exactly when its full name is a prefix of the
  bucket's.
\<close>

lemma find_from_range: "find_from sub s k = - 1 \<or> int k \<le> find_from sub s k"
  by (induction s arbitrary: k) (auto, fastforce)

lemma find_from_start: "find_from sub s k = int k \<longleftrightarrow> prefix sub s"
proof (cases s)
  case Nil
  then show ?thesis by auto
next
  case (Cons c cs)
  have "find_from sub cs (Suc k) \<noteq> int k"
    using find_from_range [of sub cs "Suc k"] by auto
  with Cons show ?thesis by simp
qed

lemma py_find_zero: "py_find s sub = 0 \<longleftrightarrow> prefix sub s"
  using find_from_start [of sub s 0] by (simp add: py_find_def)

lemma skipped_iff: "skipped bucket res \<longleftrightarrow> \<not> strict_prefix (full_name res) (full_name bucket)"
  by (auto simp: skipped_def py_find_zero strict_prefix_def)

subsection \<open>One ancestor binding\<close>

lemma step_cases [case_names skip merge append]:
  assumes "add_ancestor_binding i st a = st \<Longrightarrow> P"
    and "\<And>b. role_name (heap st a) \<in> storage_iam_roles \<Longrightarrow>
           \<not> list_ex (\<lambda>b. heap st b = heap st a) (refs_at st i) \<Longrightarrow>
           find (\<lambda>b. role_name (heap st b) = role_name (heap st a)) (refs_at st i) = Some b \<Longrightarrow>
           add_ancestor_binding i st a = st\<lparr>heap := (heap st)(b := merge_members (heap st b) (heap st a))\<rparr> \<Longrightarrow> P"
    and "role_name (heap st a) \<in> storage_iam_roles \<Longrightarrow>
           \<not> list_ex (\<lambda>b. heap st b = heap st a) (refs_at st i) \<Longrightarrow>
           find (\<lambda>b. role_name (heap st b) = role_name (heap st a)) (refs_at st i) = None \<Longrightarrow>
           add_ancestor_binding i st a = st\<lparr>policy_data := (policy_data st)
                         [i := (resource_at st i, policy_at st i, refs_at st i @ [a])]\<rparr> \<Longrightarrow> P"
  shows P
proof (cases "role_name (heap st a) \<in> storage_iam_roles \<and>
              \<not> list_ex (\<lambda>b. heap st b = heap st a) (refs_at st i)")
  case False
  then have "add_ancestor_binding i st a = st"
    by (auto simp: add_ancestor_binding_def Let_def)
  then show P by (rule assms(1))
next
  case True
  show P
  proof (cases "find (\<lambda>b. role_name (heap st b) = role_name (heap st a)) (refs_at st i)")
    case None
    with True show P
      by (intro assms(3)) (simp_all add: add_ancestor_binding_def Let_def)
  next
    case (Some b)
    with True show P
      by (intro assms(2) [of b]) (simp_all add: add_ancestor_binding_def Let_def)
  qed
qed

subsection \<open>Ancestor selection\<close>

text \<open>
  Claim C2 (ancestor selection). For a bucket, the tuples whose lists enter
  \<^verbatim>\<open>all_ancestor_bindings\<close> are exactly those whose full name differs from the bucket's and
  is a strict prefix of it; a tuple whose full name extends the bucket's (a descendant) is
  never among them.
\<close>

theorem ancestors_are_strict_prefixes:
  "all_ancestor_bindings pd bucket =
     filter (\<lambda>j. full_name (fst (pd ! j)) \<noteq> full_name bucket \<and>
                 strict_prefix (full_name (fst (pd ! j))) (full_name bucket)) [0..<length pd]
   \<and> (j \<in> set (all_ancestor_bindings pd bucket) \<longleftrightarrow>
        j < length pd \<and> full_name (fst (pd ! j)) \<noteq> full_name bucket \<and>
        strict_prefix (full_name (fst (pd ! j))) (full_name bucket))
   \<and> (strict_prefix (full_name bucket) (full_name (fst (pd ! j))) \<longrightarrow>
        j \<notin> set (all_ancestor_bindings pd bucket))"
  by (auto simp: all_ancestor_bindings_def skipped_iff intro: filter_cong)

text \<open>
  For bucket b1 of the two-project input the ancestors are the organization and project p1;
  project p2 is not one, and b1 is not an ancestor of p1.
\<close>

theorem ancestors_are_strict_prefixes_witness:
  "all_ancestor_bindings (policy_data (load buckets_input)) (resource_at (load buckets_input) 3)
     = [0, 1] \<and>
   (1 \<in> set (all_ancestor_bindings (policy_data (load buckets_input))
                (resource_at (load buckets_input) 3))) \<and>
   strict_prefix (full_name (resource_at (load buckets_input) 1))
                 (full_name (resource_at (load buckets_input) 3)) \<and>
   2 \<notin> set (all_ancestor_bindings (policy_data (load buckets_input))
                (resource_at (load buckets_input) 3)) \<and>
   strict_prefix (full_name (resource_at (load buckets_input) 1))
                 (full_name (fst (policy_data (load buckets_input) ! 3))) \<and>
   3 \<notin> set (all_ancestor_bindings (policy_data (load buckets_input))
                (resource_at (load buckets_input) 1))"
proof -
  have v: "all_ancestor_bindings (policy_data (load buckets_input))
             (resource_at (load buckets_input) 3) = [0, 1]"
    by code_simp
  have l: "(1::nat) < length (policy_data (load buckets_input))"
    by code_simp
  have d: "strict_prefix (full_name (resource_at (load buckets_input) 1))
             (full_name (fst (policy_data (load buckets_input) ! 3)))"
    by code_simp
  note t = ancestors_are_strict_prefixes
    [where pd = "policy_data (load buckets_input)" and j = 1
       and bucket = "resource_at (load buckets_input) 3"]
  note u = ancestors_are_strict_prefixes
    [where pd = "policy_data (load buckets_input)" and j = 3
       and bucket = "resource_at (load buckets_input) 1"]
  from v have m: "1 \<in> set (all_ancestor_bindings (policy_data (load buckets_input))
                (resource_at (load buckets_input) 3))" by simp
  with t have s: "strict_prefix (full_name (resource_at (load buckets_input) 1))
                 (full_name (resource_at (load buckets_input) 3))"
    by (simp add: resource_at_def)
  from v have n: "2 \<notin> set (all_ancestor_bindings (policy_data (load buckets_input))
                (resource_at (load buckets_input) 3))" by simp
  from u d have "3 \<notin> set (all_ancestor_bindings (policy_data (load buckets_input))
                (resource_at (load buckets_input) 1))" by blast
  with v m s n d show ?thesis by blast
qed

subsection \<open>Shared binding objects\<close>

text \<open>
  Claim C1 (skip, merge or append) does not hold of the code. Each round of the innermost
  loop skips, merges or appends as the claim says, but line 95 appends the ancestor's
  binding object itself, so the members later merged into a bucket are those the object
  holds by then. Bucket b2 grants carol; its ancestors are the organization, which grants
  bob, and project p2, which grants nothing. The claim gives b2 one storage admin binding
  with carol and bob. The code gives it alice as well: alice was merged into the
  organization's object during b1's pass.
\<close>

theorem merged_members_exceed_union:
  "rtype (resource_at (load buckets_input) 4) = Bucket \<and>
   all_ancestor_bindings (policy_data (load buckets_input)) (resource_at (load buckets_input) 4)
     = [0, 2] \<and>
   bindings_at (load buckets_input) 0 = [admins [''bob'']] \<and>
   bindings_at (load buckets_input) 2 = [] \<and>
   bindings_at (load buckets_input) 4 = [admins [''carol'']] \<and>
   bindings_at (add_bucket_ancestor_bindings (load buckets_input)) 4
     = [admins [''carol'', ''bob'', ''alice'']] \<and>
   bindings_at (add_bucket_ancestor_bindings (load buckets_input)) 4
     \<noteq> [admins [''carol'', ''bob'']]"
  by code_simp

text \<open>
  Claim C3 (order independence) does not hold of the code. The two inputs below differ only
  in the order of the two bucket tuples. Bucket b1 receives the organization's binding
  object itself, and the merge of project p1's alice then updates that object. When b1 is
  processed first, b2 (in project p2) afterwards merges an organization binding that holds
  alice; when b2 is processed first it merges bob only. The result for b2 depends on the
  order, and in the first order it holds a member that no ancestor of b2 grants.
\<close>

theorem bucket_order_changes_result:
  "bindings_at (load buckets_input) 4 = [admins [''carol'']] \<and>
   bindings_at (load buckets_swapped) 3 = [admins [''carol'']] \<and>
   resource_at (load buckets_input) 4 = resource_at (load buckets_swapped) 3 \<and>
   bindings_at (add_bucket_ancestor_bindings (load buckets_input)) 4
     = [admins [''carol'', ''bob'', ''alice'']] \<and>
   bindings_at (add_bucket_ancestor_bindings (load buckets_swapped)) 3
     = [admins [''carol'', ''bob'']] \<and>
   bindings_at (add_bucket_ancestor_bindings (load buckets_input)) 4
     \<noteq> bindings_at (add_bucket_ancestor_bindings (load buckets_swapped)) 3"
  by code_simp

text \<open>
  Claim C4 (only bucket lists change) does not hold of the code. In the chain organization,
  project, bucket the organization's binding object is appended to the bucket's list and
  then receives the project's member: afterwards the organization's own list shows alice.
\<close>

theorem ancestor_binding_mutated:
  "rtype (resource_at (load chain_input) 0) = Organization \<and>
   bindings_at (load chain_input) 0 = [admins [''bob'']] \<and>
   bindings_at (add_bucket_ancestor_bindings (load chain_input)) 0 = [admins [''bob'', ''alice'']] \<and>
   bindings_at (add_bucket_ancestor_bindings (load chain_input)) 0 \<noteq> bindings_at (load chain_input) 0"
  by code_simp

text \<open>
  Claim C7 (idempotence) does not hold of the code. With bucket b2 processed before b1, the
  first run leaves the organization's binding object holding alice (merged through b1's
  list) after b2 has merged it; the second run merges alice into b2.
\<close>

theorem second_run_changes_bucket:
  "bindings_at (add_bucket_ancestor_bindings (load buckets_swapped)) 3
     = [admins [''carol'', ''bob'']] \<and>
   bindings_at (add_bucket_ancestor_bindings (add_bucket_ancestor_bindings (load buckets_swapped))) 3
     = [admins [''carol'', ''bob'', ''alice'']] \<and>
   view (add_bucket_ancestor_bindings (add_bucket_ancestor_bindings (load buckets_swapped)))
     \<noteq> view (add_bucket_ancestor_bindings (load buckets_swapped))"
  by code_simp

subsection \<open>Invariants of the resolver\<close>

lemma grows_refl: "grows st st"
  by (simp add: grows_def)

lemma grows_trans: "grows s1 s2 \<Longrightarrow> grows s2 s3 \<Longrightarrow> grows s1 s3"
proof -
  assume a: "grows s1 s2" and b: "grows s2 s3"
  have "prefix (refs_at s1 k) (refs_at s3 k)" for k
    using a b prefix_order.order_trans [of "refs_at s1 k" "refs_at s2 k" "refs_at s3 k"]
    by (simp add: grows_def)
  moreover have "members (heap s1 x) \<subseteq> members (heap s3 x)" for x
    using a b subset_trans [of "members (heap s1 x)" "members (heap s2 x)" "members (heap s3 x)"]
    by (simp add: grows_def)
  moreover have "length (policy_data s3) = length (policy_data s1)"
    "resource_at s3 k = resource_at s1 k" "policy_at s3 k = policy_at s1 k"
    "role_name (heap s3 x) = role_name (heap s1 x)" for k x
    using a b by (simp_all add: grows_def)
  ultimately show ?thesis by (simp add: grows_def)
qed

lemma append_refs:
  "refs_at (st\<lparr>policy_data := (policy_data st)[i := (r, p, l)]\<rparr>) k
     = (if k = i \<and> i < length (policy_data st) then l else refs_at st k)"
  by (cases "i < length (policy_data st)") (auto simp: refs_at_def list_update_beyond)

lemma append_resource:
  "resource_at (st\<lparr>policy_data := (policy_data st)[i := (resource_at st i, p, l)]\<rparr>) k
     = resource_at st k"
  by (cases "i < length (policy_data st)"; cases "k = i") (auto simp: resource_at_def list_update_beyond)

lemma append_policy:
  "policy_at (st\<lparr>policy_data := (policy_data st)[i := (r, policy_at st i, l)]\<rparr>) k
     = policy_at st k"
  by (cases "i < length (policy_data st)"; cases "k = i") (auto simp: policy_at_def list_update_beyond)

lemmas append_at = append_refs append_resource append_policy

lemma grows_step: "grows st (add_ancestor_binding i st a)"
proof (cases rule: step_cases [where i=i and st=st and a=a])
  case skip
  then show ?thesis by (simp add: grows_refl)
next
  case (merge b)
  then show ?thesis
    by (simp add: grows_def merge_members_def refs_at_def resource_at_def policy_at_def)
next
  case append
  then show ?thesis
    by (simp add: grows_def append_at)
qed

lemma grows_foldl:
  assumes "\<And>s x. grows s (f s x)"
  shows "grows st (foldl f st xs)"
proof (induction xs arbitrary: st)
  case Nil
  show ?case by (simp add: grows_refl)
next
  case (Cons x xs)
  have "grows st (f st x)" by (rule assms)
  moreover have "grows (f st x) (foldl f (f st x) xs)" by (rule Cons.IH)
  ultimately show ?case by (simp add: grows_trans [of st "f st x"])
qed

lemma grows_ancestor: "grows st (add_ancestor_bindings i st j)"
  unfolding add_ancestor_bindings_def by (rule grows_foldl) (rule grows_step)

lemma grows_bucket: "grows st (process_bucket st i)"
  unfolding process_bucket_def by (rule grows_foldl) (rule grows_ancestor)

lemma grows_resolver: "grows st (add_bucket_ancestor_bindings st)"
  unfolding add_bucket_ancestor_bindings_def by (rule grows_foldl) (rule grows_bucket)

lemma merge_keeps_roles:
  "map role_name (map ((heap st)(b := merge_members (heap st b) ab)) l)
   = map role_name (map (heap st) l)"
  by (induction l) (simp_all add: merge_members_def)

lemma roles_unique_nth:
  "roles_unique st \<longleftrightarrow>
     (\<forall>k < length (policy_data st). distinct (map role_name (bindings_at st k)))"
  by (simp add: roles_unique_def all_set_conv_all_nth bindings_at_def refs_at_def comp_def)

lemma unique_step: "roles_unique st \<Longrightarrow> roles_unique (add_ancestor_binding i st a)"
proof (cases rule: step_cases [where i=i and st=st and a=a])
  case skip
  then show "roles_unique st \<Longrightarrow> ?thesis" by simp
next
  case (merge b)
  assume u: "roles_unique st"
  have "bindings_at (add_ancestor_binding i st a) k
        = map ((heap st)(b := merge_members (heap st b) (heap st a))) (refs_at st k)" for k
    by (simp add: merge(4) bindings_at_def refs_at_def)
  then have "map role_name (bindings_at (add_ancestor_binding i st a) k)
        = map role_name (bindings_at st k)" for k
    by (simp only: merge_keeps_roles bindings_at_def)
  moreover have "length (policy_data (add_ancestor_binding i st a)) = length (policy_data st)"
    by (simp add: merge(4))
  ultimately show ?thesis using u by (simp only: roles_unique_nth)
next
  case append
  assume u: "roles_unique st"
  from append(3) have fresh: "role_name (heap st a) \<notin> set (map role_name (bindings_at st i))"
    by (auto simp: find_None_iff bindings_at_def)
  show ?thesis
    unfolding roles_unique_nth
  proof (intro allI impI)
    fix k assume "k < length (policy_data (add_ancestor_binding i st a))"
    then have k: "k < length (policy_data st)" by (simp add: append(4))
    with u have d: "distinct (map role_name (bindings_at st k))" by (simp add: roles_unique_nth)
    have r: "refs_at (add_ancestor_binding i st a) k
        = (if k = i \<and> i < length (policy_data st) then refs_at st i @ [a] else refs_at st k)" for k
      by (simp only: append(4) append_at)
    have h: "heap (add_ancestor_binding i st a) = heap st"
      by (simp add: append(4))
    show "distinct (map role_name (bindings_at (add_ancestor_binding i st a) k))"
    proof (cases "k = i")
      case True
      with d fresh k show ?thesis by (simp add: bindings_at_def r h)
    next
      case False
      with d show ?thesis by (simp add: bindings_at_def r h)
    qed
  qed
qed

lemma inv_foldl:
  assumes "\<And>s x. P s \<Longrightarrow> P (f s x)" and "P st"
  shows "P (foldl f st xs)"
  using assms(2) by (induction xs arbitrary: st) (auto intro: assms(1))

lemma unique_ancestor: "roles_unique st \<Longrightarrow> roles_unique (add_ancestor_bindings i st j)"
  unfolding add_ancestor_bindings_def by (rule inv_foldl) (rule unique_step)

lemma unique_bucket: "roles_unique st \<Longrightarrow> roles_unique (process_bucket st i)"
  unfolding process_bucket_def by (rule inv_foldl) (rule unique_ancestor)

text \<open>
  Claim C6 (post-merge role uniqueness). If no bindings list of the input holds two entries
  with the same role name, none does after the resolver ran. A merge changes members only,
  and an append happens only when the loop over the bucket's list found no entry with the
  role name; this holds whatever objects the lists share.
\<close>

theorem resolver_keeps_roles_unique:
  "roles_unique st \<Longrightarrow> roles_unique (add_bucket_ancestor_bindings st)"
  unfolding add_bucket_ancestor_bindings_def by (rule inv_foldl) (rule unique_bucket)

theorem resolver_keeps_roles_unique_witness:
  "roles_unique (load union_input) \<and>
   roles_unique (add_bucket_ancestor_bindings (load union_input)) \<and>
   map (\<lambda>(r, p, bs). bs) (view (add_bucket_ancestor_bindings (load union_input)))
     = [[admins [''bob'']], [admins [''alice'', ''bob'']]]"
proof -
  have h: "roles_unique (load union_input)" by code_simp
  have v: "map (\<lambda>(r, p, bs). bs) (view (add_bucket_ancestor_bindings (load union_input)))
     = [[admins [''bob'']], [admins [''alice'', ''bob'']]]" by code_simp
  show ?thesis using h v resolver_keeps_roles_unique [OF h] by simp
qed

text \<open>
  Claim C10 (monotonicity). For every tuple, and so for every bucket tuple: the list before
  resolution is an initial segment of the list after it, each of its entries has kept its
  role name and its members are a subset of the members it has afterwards; hence every
  binding present before has a binding of the same role with at least its members
  afterwards. Nothing is removed.
\<close>

theorem resolver_monotone:
  assumes "k < length (policy_data st)"
  shows "prefix (refs_at st k) (refs_at (add_bucket_ancestor_bindings st) k) \<and>
     (\<forall>n < length (bindings_at st k).
        role_name (bindings_at (add_bucket_ancestor_bindings st) k ! n)
          = role_name (bindings_at st k ! n) \<and>
        members (bindings_at st k ! n)
          \<subseteq> members (bindings_at (add_bucket_ancestor_bindings st) k ! n)) \<and>
     (\<forall>b \<in> set (bindings_at st k).
        \<exists>b' \<in> set (bindings_at (add_bucket_ancestor_bindings st) k).
          role_name b' = role_name b \<and> members b \<subseteq> members b')"
proof -
  let ?st' = "add_bucket_ancestor_bindings st"
  have g: "grows st ?st'" by (rule grows_resolver)
  then have p: "prefix (refs_at st k) (refs_at ?st' k)" by (simp add: grows_def)
  then obtain zs where zs: "refs_at ?st' k = refs_at st k @ zs" by (auto simp: prefix_def)
  have pos: "role_name (bindings_at ?st' k ! n) = role_name (bindings_at st k ! n) \<and>
        members (bindings_at st k ! n) \<subseteq> members (bindings_at ?st' k ! n)"
    if "n < length (bindings_at st k)" for n
    using that g by (simp add: bindings_at_def zs nth_append grows_def)
  have "\<exists>b' \<in> set (bindings_at ?st' k). role_name b' = role_name b \<and> members b \<subseteq> members b'"
    if "b \<in> set (bindings_at st k)" for b
  proof -
    from that obtain n where n: "n < length (bindings_at st k)" "b = bindings_at st k ! n"
      by (auto simp: in_set_conv_nth)
    have "bindings_at ?st' k ! n \<in> set (bindings_at ?st' k)"
      using n(1) by (intro nth_mem) (simp add: bindings_at_def zs)
    with pos [OF n(1)] n(2) show ?thesis by blast
  qed
  with p pos show ?thesis by blast
qed

theorem resolver_monotone_witness:
  "1 < length (policy_data (load union_input)) \<and>
   bindings_at (load union_input) 1 = [admins [''alice'']] \<and>
   bindings_at (add_bucket_ancestor_bindings (load union_input)) 1 = [admins [''alice'', ''bob'']] \<and>
   prefix (refs_at (load union_input) 1)
     (refs_at (add_bucket_ancestor_bindings (load union_input)) 1)"
proof -
  have h: "1 < length (policy_data (load union_input))" by code_simp
  have v: "bindings_at (load union_input) 1 = [admins [''alice'']] \<and>
   bindings_at (add_bucket_ancestor_bindings (load union_input)) 1 = [admins [''alice'', ''bob'']]"
    by code_simp
  from h v resolver_monotone [OF h] show ?thesis by blast
qed

subsection \<open>What a bucket receives from an ancestor\<close>

text \<open>
  Whatever objects the lists share: after the resolver, a bucket holds, for every
  allow-listed binding that one of its ancestors had before, an entry with the same role
  name and at least the members that binding had. The entries of a bucket whose full name
  is empty stay the same objects, since only a bucket's own pass appends to its list.
\<close>

lemma grows_refs: "grows s s' \<Longrightarrow> set (refs_at s k) \<subseteq> set (refs_at s' k)"
  by (auto simp: grows_def dest: set_mono_prefix)

lemma holds_grows: "grows s s' \<Longrightarrow> holds_binding s i r ms \<Longrightarrow> holds_binding s' i r ms"
proof -
  assume g: "grows s s'" and h: "holds_binding s i r ms"
  from h obtain b where b: "b \<in> set (refs_at s i)" "role_name (heap s b) = r"
      "ms \<subseteq> members (heap s b)"
    by (auto simp: holds_binding_def)
  from g b(1) have "b \<in> set (refs_at s' i)" using grows_refs by blast
  moreover from g b(2) have "role_name (heap s' b) = r" by (simp add: grows_def)
  moreover from g have "members (heap s b) \<subseteq> members (heap s' b)" by (simp add: grows_def)
  with b(3) have "ms \<subseteq> members (heap s' b)" by blast
  ultimately show ?thesis unfolding holds_binding_def by blast
qed

lemma holds_mono: "ms' \<subseteq> ms \<Longrightarrow> holds_binding s i r ms \<Longrightarrow> holds_binding s i r ms'"
  unfolding holds_binding_def by blast

lemma step_holds:
  assumes i: "i < length (policy_data s)"
    and r: "role_name (heap s a) \<in> storage_iam_roles"
  shows "holds_binding (add_ancestor_binding i s a) i (role_name (heap s a)) (members (heap s a))"
proof (cases "list_ex (\<lambda>b. heap s b = heap s a) (refs_at s i)")
  case True
  then obtain b where b: "b \<in> set (refs_at s i)" "heap s b = heap s a"
    by (auto simp: list_ex_iff)
  from b(2) have "role_name (heap s b) = role_name (heap s a) \<and>
      members (heap s a) \<subseteq> members (heap s b)" by simp
  with b(1) have "holds_binding s i (role_name (heap s a)) (members (heap s a))"
    unfolding holds_binding_def by blast
  moreover from True r have "add_ancestor_binding i s a = s"
    by (simp add: add_ancestor_binding_def Let_def)
  ultimately show ?thesis by simp
next
  case False
  show ?thesis
  proof (cases "find (\<lambda>b. role_name (heap s b) = role_name (heap s a)) (refs_at s i)")
    case None
    with False r have e: "add_ancestor_binding i s a =
        s\<lparr>policy_data := (policy_data s)
              [i := (resource_at s i, policy_at s i, refs_at s i @ [a])]\<rparr>"
      by (simp add: add_ancestor_binding_def Let_def)
    have "refs_at (add_ancestor_binding i s a) i = refs_at s i @ [a]"
      using i by (simp add: e append_refs)
    moreover have "heap (add_ancestor_binding i s a) = heap s" by (simp add: e)
    ultimately show ?thesis unfolding holds_binding_def by simp
  next
    case (Some b)
    with False r have e: "add_ancestor_binding i s a =
        s\<lparr>heap := (heap s)(b := merge_members (heap s b) (heap s a))\<rparr>"
      by (simp add: add_ancestor_binding_def Let_def)
    from Some have b: "b \<in> set (refs_at s i)" "role_name (heap s b) = role_name (heap s a)"
      by (auto simp: find_Some_iff)
    have "refs_at (add_ancestor_binding i s a) i = refs_at s i"
      by (simp add: e refs_at_def)
    moreover have "heap (add_ancestor_binding i s a) b = merge_members (heap s b) (heap s a)"
      by (simp add: e)
    then have "role_name (heap (add_ancestor_binding i s a) b) = role_name (heap s a) \<and>
        members (heap s a) \<subseteq> members (heap (add_ancestor_binding i s a) b)"
      using b(2) by (simp add: merge_members_def)
    ultimately show ?thesis
      unfolding holds_binding_def using b(1) by auto
  qed
qed

lemma foldl_grows_split:
  assumes step: "\<And>s y. grows s (f s y)" and x: "x \<in> set xs"
  shows "\<exists>s. grows st s \<and> grows (f s x) (foldl f st xs)"
proof -
  from x obtain ys zs where xs: "xs = ys @ x # zs" by (auto dest: split_list)
  have "grows st (foldl f st ys)" by (rule grows_foldl) (rule step)
  moreover have "grows (f (foldl f st ys) x) (foldl f (f (foldl f st ys) x) zs)"
    by (rule grows_foldl) (rule step)
  ultimately show ?thesis unfolding xs by auto
qed

lemma ancestor_pass_holds:
  assumes i: "i < length (policy_data s)"
    and a: "a \<in> set (refs_at s j)"
    and r: "role_name (heap s a) \<in> storage_iam_roles"
  shows "holds_binding (add_ancestor_bindings i s j) i (role_name (heap s a)) (members (heap s a))"
proof -
  from foldl_grows_split [of "add_ancestor_binding i" a "refs_at s j" s, OF grows_step a]
  obtain u where u: "grows s u"
      "grows (add_ancestor_binding i u a) (add_ancestor_bindings i s j)"
    by (auto simp: add_ancestor_bindings_def)
  from u(1) have e: "role_name (heap u a) = role_name (heap s a)"
      "members (heap s a) \<subseteq> members (heap u a)" "length (policy_data u) = length (policy_data s)"
    by (simp_all add: grows_def)
  from i r e have "holds_binding (add_ancestor_binding i u a) i
      (role_name (heap u a)) (members (heap u a))"
    by (intro step_holds) simp_all
  with e have "holds_binding (add_ancestor_binding i u a) i
      (role_name (heap s a)) (members (heap s a))"
    using holds_mono by simp
  with u(2) show ?thesis by (rule holds_grows)
qed

lemma ancestors_grows:
  assumes "grows s s'"
  shows "all_ancestor_bindings (policy_data s') r = all_ancestor_bindings (policy_data s) r"
proof -
  from assms have "fst (policy_data s' ! k) = fst (policy_data s ! k)" for k
    by (simp add: grows_def resource_at_def)
  moreover from assms have "length (policy_data s') = length (policy_data s)"
    by (simp add: grows_def)
  ultimately show ?thesis by (simp add: all_ancestor_bindings_def)
qed

lemma bucket_pass_holds:
  assumes i: "i < length (policy_data s)"
    and j: "j \<in> set (all_ancestor_bindings (policy_data s) (resource_at s i))"
    and a: "a \<in> set (refs_at s j)"
    and r: "role_name (heap s a) \<in> storage_iam_roles"
  shows "holds_binding (process_bucket s i) i (role_name (heap s a)) (members (heap s a))"
proof -
  from foldl_grows_split [of "add_ancestor_bindings i" j
      "all_ancestor_bindings (policy_data s) (resource_at s i)" s, OF grows_ancestor j]
  obtain t where t: "grows s t"
      "grows (add_ancestor_bindings i t j) (process_bucket s i)"
    by (auto simp: process_bucket_def)
  from t(1) have e: "role_name (heap t a) = role_name (heap s a)"
      "members (heap s a) \<subseteq> members (heap t a)" "length (policy_data t) = length (policy_data s)"
    by (simp_all add: grows_def)
  from t(1) a have a': "a \<in> set (refs_at t j)" using grows_refs by blast
  from i r e a' have "holds_binding (add_ancestor_bindings i t j) i
      (role_name (heap t a)) (members (heap t a))"
    by (intro ancestor_pass_holds) simp_all
  with e have "holds_binding (add_ancestor_bindings i t j) i
      (role_name (heap s a)) (members (heap s a))"
    using holds_mono by simp
  with t(2) show ?thesis by (rule holds_grows)
qed

lemma resolver_holds:
  assumes i: "i < length (policy_data st)"
    and b: "rtype (resource_at st i) = Bucket"
    and j: "j \<in> set (all_ancestor_bindings (policy_data st) (resource_at st i))"
    and a: "a \<in> set (refs_at st j)"
    and r: "role_name (heap st a) \<in> storage_iam_roles"
  shows "holds_binding (add_bucket_ancestor_bindings st) i
           (role_name (heap st a)) (members (heap st a))"
proof -
  from i b have "i \<in> set (bucket_data (policy_data st))"
    by (simp add: bucket_data_def resource_at_def)
  from foldl_grows_split [of process_bucket i "bucket_data (policy_data st)" st,
      OF grows_bucket this]
  obtain s where s: "grows st s"
      "grows (process_bucket s i) (add_bucket_ancestor_bindings st)"
    by (auto simp: add_bucket_ancestor_bindings_def)
  from s(1) have e: "role_name (heap s a) = role_name (heap st a)"
      "members (heap st a) \<subseteq> members (heap s a)" "length (policy_data s) = length (policy_data st)"
      "resource_at s i = resource_at st i"
    by (simp_all add: grows_def)
  from s(1) a have a': "a \<in> set (refs_at s j)" using grows_refs by blast
  from j have j': "j \<in> set (all_ancestor_bindings (policy_data s) (resource_at s i))"
    by (simp add: ancestors_grows [OF s(1)] e)
  from i r e a' j' have "holds_binding (process_bucket s i) i
      (role_name (heap s a)) (members (heap s a))"
    by (intro bucket_pass_holds) simp_all
  with e have "holds_binding (process_bucket s i) i
      (role_name (heap st a)) (members (heap st a))"
    using holds_mono by simp
  with s(2) show ?thesis by (rule holds_grows)
qed

lemma step_other_refs: "k \<noteq> i \<Longrightarrow> refs_at (add_ancestor_binding k s a) i = refs_at s i"
proof (cases rule: step_cases [where i=k and st=s and a=a])
  case skip
  then show ?thesis by simp
next
  case (merge b)
  then show ?thesis by (simp add: refs_at_def)
next
  case append
  assume "k \<noteq> i"
  then show ?thesis by (simp add: append(4) append_refs)
qed

lemma bucket_pass_other_refs:
  assumes "k \<noteq> i"
  shows "refs_at (process_bucket s k) i = refs_at s i"
proof -
  have 1: "refs_at (add_ancestor_bindings k s' j) i = refs_at s' i" for s' j
    unfolding add_ancestor_bindings_def
    by (rule inv_foldl [where P = "\<lambda>u. refs_at u i = refs_at s' i"])
       (simp_all add: step_other_refs [OF assms])
  show ?thesis
    unfolding process_bucket_def
    by (rule inv_foldl [where P = "\<lambda>u. refs_at u i = refs_at s i"]) (simp_all add: 1)
qed

lemma no_ancestors_of_empty:
  "full_name bucket = [] \<Longrightarrow> all_ancestor_bindings pd bucket = []"
  by (simp add: all_ancestor_bindings_def skipped_iff)

lemma empty_bucket_refs:
  assumes e: "full_name (resource_at st i) = []"
  shows "refs_at (add_bucket_ancestor_bindings st) i = refs_at st i"
proof -
  let ?P = "\<lambda>s. refs_at s i = refs_at st i \<and> resource_at s i = resource_at st i"
  have "?P (process_bucket s k)" if "?P s" for s k
  proof (cases "k = i")
    case True
    from that e have "process_bucket s k = s"
      by (simp add: True process_bucket_def no_ancestors_of_empty)
    with that show ?thesis by simp
  next
    case False
    have "resource_at (process_bucket s k) i = resource_at s i"
      using grows_bucket [of s k] by (simp add: grows_def)
    with that False show ?thesis by (simp add: bucket_pass_other_refs)
  qed
  then have "?P (add_bucket_ancestor_bindings st)"
    unfolding add_bucket_ancestor_bindings_def
    by (intro inv_foldl [where P = ?P]) simp_all
  then show ?thesis by simp
qed

subsection \<open>Empty full names\<close>

text \<open>
  Claim C5 as stated fails. The empty string is a prefix of every string and \<^verbatim>\<open>find\<close>
  returns 0 for it, so a project with an empty full name is taken as an ancestor of a bucket
  with a non-empty full name, which receives its binding. And a bucket with an empty full
  name is itself such an ancestor: its binding object is appended to the other bucket's list
  and then receives the project's member, so its own list shows bob afterwards.
\<close>

theorem empty_full_name_counterexample:
  "full_name (resource_at (load nameless_input) 0) = [] \<and>
   rtype (resource_at (load nameless_input) 1) = Bucket \<and>
   all_ancestor_bindings (policy_data (load nameless_input)) (resource_at (load nameless_input) 1)
     = [0] \<and>
   bindings_at (load nameless_input) 1 = [] \<and>
   bindings_at (add_bucket_ancestor_bindings (load nameless_input)) 1 = [admins [''alice'']] \<and>
   rtype (resource_at (load nameless_shared_input) 0) = Bucket \<and>
   full_name (resource_at (load nameless_shared_input) 0) = [] \<and>
   bindings_at (load nameless_shared_input) 0 = [admins [''alice'']] \<and>
   bindings_at (add_bucket_ancestor_bindings (load nameless_shared_input)) 0
     = [admins [''alice'', ''bob'']]"
  by code_simp

text \<open>
  Claim C5, amended. A tuple whose full name is empty is an ancestor of exactly the buckets
  whose full name is not empty, and after the resolver such a bucket has, for each
  allow-listed binding of that tuple, an entry with the same role name and at least that
  binding's members. A bucket whose full name is empty has no ancestors, and the resolver
  appends nothing to its list.
\<close>

theorem empty_full_name_resolution:
  "(j < length (policy_data st) \<and> full_name (resource_at st j) = [] \<longrightarrow>
      (j \<in> set (all_ancestor_bindings (policy_data st) (resource_at st i)) \<longleftrightarrow>
       full_name (resource_at st i) \<noteq> [])) \<and>
   (j < length (policy_data st) \<and> full_name (resource_at st j) = [] \<and>
    i < length (policy_data st) \<and> rtype (resource_at st i) = Bucket \<and>
    full_name (resource_at st i) \<noteq> [] \<and>
    a \<in> set (refs_at st j) \<and> role_name (heap st a) \<in> storage_iam_roles \<longrightarrow>
      (\<exists>b \<in> set (refs_at (add_bucket_ancestor_bindings st) i).
         role_name (heap (add_bucket_ancestor_bindings st) b) = role_name (heap st a) \<and>
         members (heap st a) \<subseteq> members (heap (add_bucket_ancestor_bindings st) b))) \<and>
   (full_name (resource_at st i) = [] \<longrightarrow>
      all_ancestor_bindings (policy_data st) (resource_at st i) = [] \<and>
      refs_at (add_bucket_ancestor_bindings st) i = refs_at st i)"
proof -
  have anc: "j \<in> set (all_ancestor_bindings (policy_data st) (resource_at st i)) \<longleftrightarrow>
       full_name (resource_at st i) \<noteq> []"
    if "j < length (policy_data st)" "full_name (resource_at st j) = []"
    using that
    by (auto simp: all_ancestor_bindings_def skipped_iff strict_prefix_def resource_at_def)
  have recv: "\<exists>b \<in> set (refs_at (add_bucket_ancestor_bindings st) i).
         role_name (heap (add_bucket_ancestor_bindings st) b) = role_name (heap st a) \<and>
         members (heap st a) \<subseteq> members (heap (add_bucket_ancestor_bindings st) b)"
    if j: "j < length (policy_data st)" "full_name (resource_at st j) = []"
      and i: "i < length (policy_data st)" and b: "rtype (resource_at st i) = Bucket"
      and n: "full_name (resource_at st i) \<noteq> []"
      and a: "a \<in> set (refs_at st j)" and r: "role_name (heap st a) \<in> storage_iam_roles"
  proof -
    from anc [OF j] n
    have m: "j \<in> set (all_ancestor_bindings (policy_data st) (resource_at st i))" by simp
    have "holds_binding (add_bucket_ancestor_bindings st) i
           (role_name (heap st a)) (members (heap st a))"
      by (rule resolver_holds [OF i b m a r])
    then show ?thesis by (simp add: holds_binding_def)
  qed
  have none: "all_ancestor_bindings (policy_data st) (resource_at st i) = [] \<and>
      refs_at (add_bucket_ancestor_bindings st) i = refs_at st i"
    if "full_name (resource_at st i) = []"
    using that by (simp add: no_ancestors_of_empty empty_bucket_refs)
  from anc recv none show ?thesis by blast
qed

text \<open>
  The bucket in project p receives alice's binding from the bucket with the empty name, whose
  own list keeps its single entry.
\<close>

theorem empty_full_name_resolution_witness:
  "(0 < length (policy_data (load nameless_shared_input)) \<and>
    full_name (resource_at (load nameless_shared_input) 0) = [] \<and>
    2 < length (policy_data (load nameless_shared_input)) \<and>
    rtype (resource_at (load nameless_shared_input) 2) = Bucket \<and>
    full_name (resource_at (load nameless_shared_input) 2) \<noteq> [] \<and>
    0 \<in> set (refs_at (load nameless_shared_input) 0) \<and>
    role_name (heap (load nameless_shared_input) 0) \<in> storage_iam_roles) \<and>
   0 \<in> set (all_ancestor_bindings (policy_data (load nameless_shared_input))
               (resource_at (load nameless_shared_input) 2)) \<and>
   (\<exists>b \<in> set (refs_at (add_bucket_ancestor_bindings (load nameless_shared_input)) 2).
      role_name (heap (add_bucket_ancestor_bindings (load nameless_shared_input)) b)
        = role_name (heap (load nameless_shared_input) 0) \<and>
      members (heap (load nameless_shared_input) 0)
        \<subseteq> members (heap (add_bucket_ancestor_bindings (load nameless_shared_input)) b)) \<and>
   bindings_at (load nameless_shared_input) 2 = [] \<and>
   bindings_at (add_bucket_ancestor_bindings (load nameless_shared_input)) 2
     = [admins [''alice'', ''bob'']] \<and>
   refs_at (add_bucket_ancestor_bindings (load nameless_shared_input)) 0
     = refs_at (load nameless_shared_input) 0"
proof -
  have h: "0 < length (policy_data (load nameless_shared_input)) \<and>
    full_name (resource_at (load nameless_shared_input) 0) = [] \<and>
    2 < length (policy_data (load nameless_shared_input)) \<and>
    rtype (resource_at (load nameless_shared_input) 2) = Bucket \<and>
    full_name (resource_at (load nameless_shared_input) 2) \<noteq> [] \<and>
    0 \<in> set (refs_at (load nameless_shared_input) 0) \<and>
    role_name (heap (load nameless_shared_input) 0) \<in> storage_iam_roles"
    by code_simp
  have v: "bindings_at (load nameless_shared_input) 2 = [] \<and>
   bindings_at (add_bucket_ancestor_bindings (load nameless_shared_input)) 2
     = [admins [''alice'', ''bob'']]"
    by code_simp
  note t = empty_full_name_resolution
    [where st = "load nameless_shared_input" and j = 0 and i = 2 and a = 0]
  note u = empty_full_name_resolution
    [where st = "load nameless_shared_input" and j = 0 and i = 0 and a = 0]
  from t h have c: "0 \<in> set (all_ancestor_bindings (policy_data (load nameless_shared_input))
               (resource_at (load nameless_shared_input) 2)) \<and>
   (\<exists>b \<in> set (refs_at (add_bucket_ancestor_bindings (load nameless_shared_input)) 2).
      role_name (heap (add_bucket_ancestor_bindings (load nameless_shared_input)) b)
        = role_name (heap (load nameless_shared_input) 0) \<and>
      members (heap (load nameless_shared_input) 0)
        \<subseteq> members (heap (add_bucket_ancestor_bindings (load nameless_shared_input)) b))"
    by blast
  from u h have d: "refs_at (add_bucket_ancestor_bindings (load nameless_shared_input)) 0
     = refs_at (load nameless_shared_input) 0"
    by blast
  from h v c d show ?thesis by blast
qed

section \<open>The flattener and the run\<close>

lemma flatten_members_map: "flatten_members v ms = map (flat_record v) ms"
  by (induction ms) simp_all

text \<open>
  Claim C8 (one record per violation and member). The flattener yields, in order, one record
  for every member of every violation; the number of records is the sum of the member
  counts; a record carries the violation's fields and the sub-record of full name, role and
  the member written as type, colon, name; a violation without members adds nothing.
\<close>

theorem flatten_one_record_per_member:
  "flatten_violations vs = concat (map (\<lambda>v. map (flat_record v) (v_members v)) vs) \<and>
   length (flatten_violations vs) = sum_list (map (\<lambda>v. length (v_members v)) vs) \<and>
   flat_record v m =
     \<lparr>f_resource_id = resource_id v, f_resource_type = resource_type v,
      f_full_name = v_full_name v, f_rule_index = rule_index v, f_rule_name = rule_name v,
      f_violation_type = violation_type v,
      f_violation_data = \<lparr>vd_full_name = v_full_name v, vd_role = role v,
                          vd_member = member_type m @ '':'' @ member_name m\<rparr>,
      f_inventory_data = inventory_data v\<rparr> \<and>
   (v_members v = [] \<longrightarrow> flatten_violations (us @ v # ws) = flatten_violations (us @ ws))"
proof -
  have c: "flatten_violations xs = concat (map (\<lambda>v. map (flat_record v) (v_members v)) xs)" for xs
    by (induction xs) (simp_all add: flatten_members_map)
  have "length (flatten_violations vs) = sum_list (map (\<lambda>v. length (v_members v)) vs)"
    by (induction vs) (simp_all add: flatten_members_map)
  moreover have "v_members v = [] \<longrightarrow> flatten_violations (us @ v # ws) = flatten_violations (us @ ws)"
    by (simp add: c)
  ultimately show ?thesis
    by (simp add: c flat_record_def member_str_def)
qed

theorem flatten_one_record_per_member_witness:
  "v_members (example_violation []) = [] \<and>
   flatten_violations ([example_violation [user ''alice'', user ''bob'']] @ example_violation [] # [])
     = flatten_violations ([example_violation [user ''alice'', user ''bob'']] @ []) \<and>
   map (\<lambda>f. vd_member (f_violation_data f))
     (flatten_violations [example_violation [user ''alice'', user ''bob''], example_violation []])
     = [''user:alice'', ''user:bob'']"
proof -
  have h: "v_members (example_violation []) = []" by code_simp
  have v: "map (\<lambda>f. vd_member (f_violation_data f))
     (flatten_violations [example_violation [user ''alice'', user ''bob''], example_violation []])
     = [''user:alice'', ''user:bob'']" by code_simp
  note t = flatten_one_record_per_member [where v = "example_violation []"
     and us = "[example_violation [user ''alice'', user ''bob'']]" and ws = "[]"]
  from t h v show ?thesis by blast
qed

text \<open>
  Claim C9 (empty retrieval). When the retrieval loop has collected no tuple,
  \<^verbatim>\<open>_retrieve\<close> exits with code 1 and so does the run, whatever the rule engine is: the
  resolver and the engine are not reached and nothing is handed to the sinks.
\<close>

theorem empty_retrieval_exits:
  "fst (retrieve_loop parse_bindings policies) = [] \<Longrightarrow>
   retrieve parse_bindings policies = Inl (SystemExit 1) \<and>
   run find_policy_violations parse_bindings policies = Inl (SystemExit 1)"
  by (cases "retrieve_loop parse_bindings policies") (simp add: run_def retrieve_def)

theorem empty_retrieval_exits_witness:
  "fst (retrieve_loop (\<lambda>d. []) [raw_policy ''dataset'' ''d'' ''organization/1/dataset/d/'']) = [] \<and>
   run (\<lambda>r p bs. []) (\<lambda>d. []) [raw_policy ''dataset'' ''d'' ''organization/1/dataset/d/'']
     = Inl (SystemExit 1)"
proof -
  have h: "fst (retrieve_loop (\<lambda>d. []) [raw_policy ''dataset'' ''d'' ''organization/1/dataset/d/'']) = []"
    by code_simp
  from h empty_retrieval_exits [OF h, of "\<lambda>r p bs. []"] show ?thesis by blast
qed

end
